theory Spec2Isabelle
  imports Main "HOL-Library.List_Lexorder" "HOL-Library.Char_ord"
begin

section \<open>Form logic of FormSG: data model\<close>

text \<open>
  The module embedded here is the form-logic module (\<^verbatim>\<open>src/unnamed/part_002\<close>): the
  condition evaluator \<^verbatim>\<open>isConditionFulfilled\<close>, the index build
  \<^verbatim>\<open>groupLogicUnitsByField\<close>, the visibility resolver \<^verbatim>\<open>getVisibleFieldIds\<close> and the
  submission gate \<^verbatim>\<open>getLogicUnitPreventingSubmit\<close>.

  Identifiers (\<^verbatim>\<open>_id\<close>, \<^verbatim>\<open>condition.field\<close>, the entries of \<^verbatim>\<open>show\<close>) are modelled by the
  string that \<^verbatim>\<open>String(_)\<close> and \<^verbatim>\<open>_.toString()\<close> give for them, so both conversions are
  the identity of the model.
\<close>

text \<open>
  Modelled from the spec: the enumeration \<^verbatim>\<open>BasicField\<close> is declared in
  \<^verbatim>\<open>../../types\<close>, which is not among the sources. The seven types of the table
  \<^verbatim>\<open>LOGIC_CONDITIONS\<close> are named in the code; the spec names attachment and table
  among the others, and every remaining type is \<open>OtherField\<close> with its tag.
\<close>

datatype BasicField =
  Checkbox | Dropdown | Number | Decimal | Rating | YesNo | Radio
  | Attachment | Table | OtherField string

text \<open>
  Modelled from the spec: the enumeration \<^verbatim>\<open>LogicConditionState\<close> (also declared in
  \<^verbatim>\<open>../../types\<close>) has the five operators the evaluator dispatches on.
\<close>

datatype LogicConditionState = Equal | Either | AnyOf | Lte | Gte

datatype LogicType = ShowFields | PreventSubmit

text \<open>
  Modelled from the spec: the types of conditions, logic units, fields, responses and
  forms are declared in \<^verbatim>\<open>../../types\<close> and \<^verbatim>\<open>shared/types/form/form_logic\<close>, which are
  not among the sources. The records below have the attributes the module reads, with
  the shapes of the specification's data model.
\<close>

record CheckboxConditionValue =
  options :: "string list"
  others :: bool

text \<open>
  The values an answer or a condition can hold, after the declared types
  \<^verbatim>\<open>string | number | string[] | number[] | CheckboxConditionValue[]\<close> of a condition value
  and \<^verbatim>\<open>string | string[] | CheckboxConditionValue | undefined | null\<close> of a current value.
  The type \<open>'n\<close> stands for ECMAScript numbers.
\<close>

datatype 'n JSValue =
  Undefined | Null | Str string | Num 'n
  | CheckboxVal CheckboxConditionValue | Arr "'n JSValue list"

text \<open>
  The three number primitives of the language the module calls: the conversion of a
  string to a number (the heart of \<^verbatim>\<open>Number(_)\<close>), the conversion of a number to a string
  (the heart of \<^verbatim>\<open>String(_)\<close>) and the comparison \<^verbatim>\<open><=\<close> of two numbers. They are IEEE
  doubles in the language and no part of the repository, so the model takes them as a
  parameter; every theorem below holds for all of them.
\<close>

record 'n JSNumber =
  StringToNumber :: "string \<Rightarrow> 'n"
  NumberToString :: "'n \<Rightarrow> string"
  lessEq :: "'n \<Rightarrow> 'n \<Rightarrow> bool"

record 'n IConditionSchema =
  field :: string
  state :: LogicConditionState
  cvalue :: "'n JSValue"

text \<open>
  A logic unit is a tagged union on \<^verbatim>\<open>logicType\<close>: a show-fields unit carries \<^verbatim>\<open>show\<close>
  (here \<open>showIds\<close>), a prevent-submit unit its message.
\<close>

datatype 'n ILogicSchema =
  IShowFieldsLogicSchema (conditions: "'n IConditionSchema list") (showIds: "string list")
  | IPreventSubmitLogicSchema (conditions: "'n IConditionSchema list")
      (preventSubmitMessage: "string option")
where
  "showIds (IPreventSubmitLogicSchema cs m) = []"
| "preventSubmitMessage (IShowFieldsLogicSchema cs ss) = None"

fun logicType :: "'n ILogicSchema \<Rightarrow> LogicType" where
  "logicType (IShowFieldsLogicSchema cs ss) = ShowFields"
| "logicType (IPreventSubmitLogicSchema cs m) = PreventSubmit"

record IFieldSchema =
  field_id :: string
  fieldType :: BasicField

text \<open>
  An entry of the submission: a form field with \<^verbatim>\<open>fieldValue\<close> on the client, a response
  with \<^verbatim>\<open>answer\<close> or \<^verbatim>\<open>answerArray\<close> on the server. \<open>None\<close> is an attribute that is not
  \<^verbatim>\<open>in\<close> the object.
\<close>

record 'n LogicFieldSchemaOrResponse = IFieldSchema +
  fieldValue :: "'n JSValue option"
  answer :: "'n JSValue option"
  answerArray :: "'n JSValue option"

record 'n IFormDocument =
  form_id :: "string option"
  form_fields :: "IFieldSchema list option"
  form_logics :: "'n ILogicSchema list option"

type_synonym 'n GroupedLogic = "string \<rightharpoonup> 'n IConditionSchema list list"

type_synonym FieldIdSet = "string set"


section \<open>The operator table\<close>

definition LOGIC_CONDITIONS :: "(BasicField \<times> LogicConditionState list) list" where
  "LOGIC_CONDITIONS =
     [(Checkbox, [AnyOf]),
      (Dropdown, [Equal, Either]),
      (Number, [Equal, Lte, Gte]),
      (Decimal, [Equal, Lte, Gte]),
      (Rating, [Equal, Lte, Gte]),
      (YesNo, [Equal]),
      (Radio, [Equal, Either])]"

definition LOGIC_MAP :: "BasicField \<rightharpoonup> LogicConditionState list" where
  "LOGIC_MAP = map_of LOGIC_CONDITIONS"

definition getApplicableIfStates :: "BasicField \<Rightarrow> LogicConditionState list" where
  "getApplicableIfStates fieldType' =
     (case LOGIC_MAP fieldType' of None \<Rightarrow> [] | Some states \<Rightarrow> states)"

definition isLogicField :: "('n, 'a) LogicFieldSchemaOrResponse_scheme \<Rightarrow> bool" where
  "isLogicField fld = (LOGIC_MAP (fieldType fld) \<noteq> None)"


section \<open>Coercions and type guards\<close>

fun join :: "string list \<Rightarrow> string" where
  "join [] = []"
| "join [x] = x"
| "join (x # y # zs) = x @ '','' @ join (y # zs)"

text \<open>
  \<^verbatim>\<open>String(v)\<close>. An array is joined with commas, \<^verbatim>\<open>null\<close> and \<^verbatim>\<open>undefined\<close> elements
  giving the empty string; a plain object gives \<^verbatim>\<open>[object Object]\<close>.
\<close>

fun String_js :: "'n JSNumber \<Rightarrow> 'n JSValue \<Rightarrow> string" where
  "String_js ops Undefined = ''undefined''"
| "String_js ops Null = ''null''"
| "String_js ops (Str s) = s"
| "String_js ops (Num n) = NumberToString ops n"
| "String_js ops (CheckboxVal cv) = ''[object Object]''"
| "String_js ops (Arr xs) =
     join (map (\<lambda>x. case x of Undefined \<Rightarrow> [] | Null \<Rightarrow> [] | _ \<Rightarrow> String_js ops x) xs)"

text \<open>
  \<^verbatim>\<open>Number(v)\<close>. A number is itself, \<^verbatim>\<open>null\<close> is zero, and an array or an object is
  converted to its string first; \<^verbatim>\<open>undefined\<close> is not a number, as the string
  \<^verbatim>\<open>undefined\<close> is not.
\<close>

definition Number_js :: "'n JSNumber \<Rightarrow> 'n JSValue \<Rightarrow> 'n" where
  "Number_js ops v =
     (case v of
        Num n \<Rightarrow> n
      | Null \<Rightarrow> StringToNumber ops ''0''
      | _ \<Rightarrow> StringToNumber ops (String_js ops v))"

text \<open>
  lodash's \<^verbatim>\<open>isEmpty\<close>: a string or an array of length zero, an object with no own
  key, and every primitive that is neither (a number among them).
\<close>

fun isEmpty :: "'n JSValue \<Rightarrow> bool" where
  "isEmpty Undefined = True"
| "isEmpty Null = True"
| "isEmpty (Str s) = (s = [])"
| "isEmpty (Num n) = True"
| "isEmpty (CheckboxVal cv) = False"
| "isEmpty (Arr xs) = (xs = [])"

fun isNumber :: "'n JSValue \<Rightarrow> bool" where
  "isNumber (Num n) = True"
| "isNumber _ = False"

text \<open>
  \<^verbatim>\<open>isCheckboxConditionValue\<close>: an object with a string array \<^verbatim>\<open>options\<close> and a boolean
  \<^verbatim>\<open>others\<close>. Among the values of the model these are the checkbox values.
  Modelled from the spec: the helper \<^verbatim>\<open>hasProp\<close> (\<^verbatim>\<open>../../has-prop\<close>) is not among the
  sources; it is taken to hold of an object that has the named property.
\<close>

fun isCheckboxConditionValue :: "'n JSValue \<Rightarrow> bool" where
  "isCheckboxConditionValue (CheckboxVal cv) = True"
| "isCheckboxConditionValue _ = False"

fun isArray :: "'n JSValue \<Rightarrow> bool" where
  "isArray (Arr xs) = True"
| "isArray _ = False"

fun elements :: "'n JSValue \<Rightarrow> 'n JSValue list" where
  "elements (Arr xs) = xs"
| "elements _ = []"

definition isLogicCheckboxCondition :: "'n IConditionSchema \<Rightarrow> bool" where
  "isLogicCheckboxCondition condition =
     (isArray (cvalue condition) \<and> list_all isCheckboxConditionValue (elements (cvalue condition)))"

text \<open>\<^verbatim>\<open>[].concat(v)\<close>: the elements of an array, or the value alone.\<close>

fun concatValue :: "'n JSValue \<Rightarrow> 'n JSValue list" where
  "concatValue (Arr xs) = xs"
| "concatValue v = [v]"

definition startsWith :: "string \<Rightarrow> string \<Rightarrow> bool" where
  "startsWith s p = (take (length p) s = p)"

text \<open>
  \<^verbatim>\<open>cloneDeep(obj)\<close> with \<^verbatim>\<open>options\<close> replaced by \<^verbatim>\<open>options.sort()\<close>, the sort of strings
  by code units.
\<close>

fun sortOptions :: "'n JSValue \<Rightarrow> 'n JSValue" where
  "sortOptions (CheckboxVal cv) = CheckboxVal (cv\<lparr>options := sort (options cv)\<rparr>)"
| "sortOptions v = v"


section \<open>Condition evaluator\<close>

definition getCurrentValue :: "('n, 'a) LogicFieldSchemaOrResponse_scheme \<Rightarrow> 'n JSValue" where
  "getCurrentValue fld =
     (case fieldValue fld of
        Some v \<Rightarrow> v
      | None \<Rightarrow>
          (case answer fld of
             Some v \<Rightarrow> v
           | None \<Rightarrow> (case answerArray fld of Some v \<Rightarrow> v | None \<Rightarrow> Null)))"

definition conditionValues :: "'n JSNumber \<Rightarrow> 'n IConditionSchema \<Rightarrow> string list" where
  "conditionValues ops condition = map (String_js ops) (concatValue (cvalue condition))"

definition isConditionFulfilled ::
  "'n JSNumber \<Rightarrow> 'n LogicFieldSchemaOrResponse option \<Rightarrow> 'n IConditionSchema option \<Rightarrow> bool"
where
  "isConditionFulfilled ops field' condition' =
     (case (field', condition') of
        (Some fld, Some condition) \<Rightarrow>
          if \<not> isLogicField fld then False
          else
            let currentValue = getCurrentValue fld in
            if currentValue = Null \<or> currentValue = Undefined
               \<or> (\<not> isNumber currentValue \<and> isEmpty currentValue)
            then False
            else if state condition = Equal \<or> state condition = Either then
              let values = conditionValues ops condition;
                  current = String_js ops currentValue
              in if ''Others'' \<in> set values then
                   let values' =
                         (if fieldType fld = Radio then values @ [''radioButtonOthers'']
                          else values)
                   in current \<in> set values' \<or> startsWith current ''Others: ''
                 else current \<in> set values
            else if state condition = AnyOf then
              if fieldType fld = Checkbox \<and> isLogicCheckboxCondition condition
                 \<and> isCheckboxConditionValue currentValue
              then
                let sortedConditionValue = map sortOptions (elements (cvalue condition));
                    sortedCurrentValue = sortOptions currentValue
                in list_ex (\<lambda>val. sortedCurrentValue = val) sortedConditionValue
              else False
            else if state condition = Lte then
              lessEq ops (Number_js ops currentValue) (Number_js ops (cvalue condition))
            else if state condition = Gte then
              lessEq ops (Number_js ops (cvalue condition)) (Number_js ops currentValue)
            else False
      | _ \<Rightarrow> False)"

definition findConditionField ::
  "'n LogicFieldSchemaOrResponse list \<Rightarrow> string \<Rightarrow> 'n LogicFieldSchemaOrResponse option"
where
  "findConditionField submission fieldId =
     List.find (\<lambda>submittedField. field_id submittedField = fieldId) submission"

definition isLogicUnitSatisfied ::
  "'n JSNumber \<Rightarrow> 'n LogicFieldSchemaOrResponse list \<Rightarrow> 'n IConditionSchema list
     \<Rightarrow> FieldIdSet \<Rightarrow> bool"
where
  "isLogicUnitSatisfied ops submission logicUnit visibleFieldIds =
     list_all
       (\<lambda>condition.
          case findConditionField submission (field condition) of
            None \<Rightarrow> False
          | Some conditionField \<Rightarrow>
              field_id conditionField \<in> visibleFieldIds
              \<and> isConditionFulfilled ops (Some conditionField) (Some condition))
       logicUnit"


section \<open>Logic grouping index\<close>

definition formFields :: "'n IFormDocument \<Rightarrow> IFieldSchema list" where
  "formFields form = (case form_fields form of None \<Rightarrow> [] | Some fs \<Rightarrow> fs)"

definition formLogicUnits :: "'n IFormDocument \<Rightarrow> 'n ILogicSchema list" where
  "formLogicUnits form = (case form_logics form of None \<Rightarrow> [] | Some ls \<Rightarrow> ls)"

text \<open>\<^verbatim>\<open>new Set(form.form_fields?.map((field) => String(field._id)))\<close>\<close>

definition formFieldIdSet :: "'n IFormDocument \<Rightarrow> FieldIdSet" where
  "formFieldIdSet form = set (map field_id (formFields form))"

definition isShowFieldsLogic :: "'n ILogicSchema \<Rightarrow> bool" where
  "isShowFieldsLogic formLogic = (logicType formLogic = ShowFields)"

definition isPreventSubmitLogic :: "'n ILogicSchema \<Rightarrow> bool" where
  "isPreventSubmitLogic formLogic = (logicType formLogic = PreventSubmit)"

definition allConditionsExist :: "'n IConditionSchema list \<Rightarrow> FieldIdSet \<Rightarrow> bool" where
  "allConditionsExist conds formFieldIds =
     list_all (\<lambda>condition. field condition \<in> formFieldIds) conds"

text \<open>The body of the inner \<^verbatim>\<open>forEach\<close>, over the ids of \<^verbatim>\<open>show\<close>.\<close>

definition addShowTarget ::
  "FieldIdSet \<Rightarrow> 'n IConditionSchema list \<Rightarrow> 'n GroupedLogic \<Rightarrow> string \<Rightarrow> 'n GroupedLogic"
where
  "addShowTarget formFieldIds conds grouped fieldId =
     (if fieldId \<in> formFieldIds
      then grouped(fieldId \<mapsto> (case grouped fieldId of None \<Rightarrow> [] | Some gs \<Rightarrow> gs) @ [conds])
      else grouped)"

text \<open>
  The body of the outer \<^verbatim>\<open>forEach\<close>; the state is the index and the flag
  \<^verbatim>\<open>hasInvalidLogic\<close>.
\<close>

definition groupStep ::
  "FieldIdSet \<Rightarrow> 'n GroupedLogic \<times> bool \<Rightarrow> 'n ILogicSchema \<Rightarrow> 'n GroupedLogic \<times> bool"
where
  "groupStep formFieldIds st logicUnit =
     (if allConditionsExist (conditions logicUnit) formFieldIds
      then (foldl (addShowTarget formFieldIds (conditions logicUnit)) (fst st) (showIds logicUnit),
            snd st)
      else (fst st, True))"

text \<open>
  Truthiness of \<^verbatim>\<open>form._id\<close>: an id that is present and not the empty string.
\<close>

definition truthyId :: "string option \<Rightarrow> bool" where
  "truthyId i = (case i of None \<Rightarrow> False | Some s \<Rightarrow> s \<noteq> [])"

definition invalidLogicMessage :: "string option \<Rightarrow> string" where
  "invalidLogicMessage i =
     ''formId='' @ [CHR 0x22] @ (case i of None \<Rightarrow> ''undefined'' | Some s \<Rightarrow> s) @ [CHR 0x22]
       @ '' message='' @ [CHR 0x22] @ ''Form has invalid logic'' @ [CHR 0x22]"

text \<open>
  \<^verbatim>\<open>groupLogicUnitsByField\<close> returns the index; the second component is what it wrote
  with \<^verbatim>\<open>console.info\<close>, one string for each call.
\<close>

definition groupLogicUnitsByField :: "'n IFormDocument \<Rightarrow> 'n GroupedLogic \<times> string list" where
  "groupLogicUnitsByField form =
     (let formId = form_id form;
          formLogics = filter isShowFieldsLogic (formLogicUnits form);
          formFieldIds = formFieldIdSet form;
          st = foldl (groupStep formFieldIds) (Map.empty, False) formLogics
      in (fst st, if snd st \<and> truthyId formId then [invalidLogicMessage formId] else []))"


section \<open>Visibility resolver\<close>

text \<open>
  One pass of \<^verbatim>\<open>form.form_fields?.forEach\<close> inside the \<^verbatim>\<open>while\<close> loop. The state is the
  set \<^verbatim>\<open>visibleFieldIds\<close>, which the pass mutates as it goes, and the flag
  \<^verbatim>\<open>changesMade\<close>.
\<close>

fun sweep ::
  "'n JSNumber \<Rightarrow> 'n LogicFieldSchemaOrResponse list \<Rightarrow> 'n GroupedLogic
     \<Rightarrow> IFieldSchema list \<Rightarrow> FieldIdSet \<times> bool \<Rightarrow> FieldIdSet \<times> bool"
where
  "sweep ops submission grouped [] st = st"
| "sweep ops submission grouped (fld # rest) st =
     (if field_id fld \<notin> fst st
         \<and> (case grouped (field_id fld) of
               None \<Rightarrow> True
             | Some logicUnits \<Rightarrow>
                 list_ex (\<lambda>logicUnit. isLogicUnitSatisfied ops submission logicUnit (fst st))
                   logicUnits)
      then sweep ops submission grouped rest (insert (field_id fld) (fst st), True)
      else sweep ops submission grouped rest st)"

text \<open>
  The \<^verbatim>\<open>while (changesMade)\<close> loop. The second component of the result counts the passes
  the loop has made; the code does not compute it.
\<close>

function sweepLoop ::
  "'n JSNumber \<Rightarrow> 'n LogicFieldSchemaOrResponse list \<Rightarrow> 'n GroupedLogic
     \<Rightarrow> IFieldSchema list \<Rightarrow> FieldIdSet \<Rightarrow> FieldIdSet \<times> nat"
where
  "sweepLoop ops submission grouped flds visibleFieldIds =
     (let st = sweep ops submission grouped flds (visibleFieldIds, False)
      in if snd st
         then (let r = sweepLoop ops submission grouped flds (fst st) in (fst r, Suc (snd r)))
         else (fst st, 1))"
  by pat_completeness auto
termination
proof (relation "measure (\<lambda>(ops, submission, grouped, flds, vis). card (field_id ` set flds - vis))")
  show "wf (measure (\<lambda>(ops, submission, grouped, flds, vis :: FieldIdSet).
              card (field_id ` set flds - vis)))"
    by simp
next
  fix ops :: "'n JSNumber" and submission :: "'n LogicFieldSchemaOrResponse list"
    and grouped :: "'n GroupedLogic" and flds :: "IFieldSchema list"
    and visibleFieldIds :: FieldIdSet and st
  assume st: "st = sweep ops submission grouped flds (visibleFieldIds, False)"
    and changed: "snd st"
  have grows: "fst s \<subseteq> fst (sweep ops submission grouped fs s)" for fs s
  proof (induction fs arbitrary: s)
    case Nil
    show ?case by simp
  next
    case (Cons a fs)
    have "fst s \<subseteq> fst (sweep ops submission grouped fs (insert (field_id a) (fst s), True))"
      using Cons [of "(insert (field_id a) (fst s), True)"] by simp
    with Cons [of s] show ?case by simp
  qed
  have witness: "snd (sweep ops submission grouped fs s) \<Longrightarrow> \<not> snd s \<Longrightarrow>
      \<exists>x \<in> field_id ` set fs. x \<notin> fst s \<and> x \<in> fst (sweep ops submission grouped fs s)" for fs s
  proof (induction fs arbitrary: s)
    case Nil
    then show ?case by simp
  next
    case (Cons a fs)
    show ?case
    proof (cases "sweep ops submission grouped (a # fs) s = sweep ops submission grouped fs s")
      case True
      with Cons show ?thesis by auto
    next
      case False
      then have eq: "sweep ops submission grouped (a # fs) s
          = sweep ops submission grouped fs (insert (field_id a) (fst s), True)"
        and new: "field_id a \<notin> fst s"
        by (auto split: if_splits)
      have "field_id a \<in> fst (sweep ops submission grouped fs (insert (field_id a) (fst s), True))"
        using grows [of "(insert (field_id a) (fst s), True)" fs] by auto
      with eq new show ?thesis by auto
    qed
  qed
  from witness [of flds "(visibleFieldIds, False)"] st changed
  obtain x where x: "x \<in> field_id ` set flds" "x \<notin> visibleFieldIds" "x \<in> fst st"
    by auto
  have sub: "visibleFieldIds \<subseteq> fst st"
    using grows [of "(visibleFieldIds, False)" flds] st by simp
  have "field_id ` set flds - fst st \<subset> field_id ` set flds - visibleFieldIds"
    using x sub by auto
  then have "card (field_id ` set flds - fst st) < card (field_id ` set flds - visibleFieldIds)"
    by (intro psubset_card_mono) auto
  then show "((ops, submission, grouped, flds, fst st), (ops, submission, grouped, flds, visibleFieldIds))
      \<in> measure (\<lambda>(ops, submission, grouped, flds, vis). card (field_id ` set flds - vis))"
    by simp
qed

declare sweepLoop.simps [simp del]

definition getVisibleFieldIds ::
  "'n JSNumber \<Rightarrow> 'n LogicFieldSchemaOrResponse list \<Rightarrow> 'n IFormDocument \<Rightarrow> FieldIdSet"
where
  "getVisibleFieldIds ops submission form =
     (let logicUnitsGroupedByField = fst (groupLogicUnitsByField form)
      in fst (sweepLoop ops submission logicUnitsGroupedByField (formFields form) {}))"


section \<open>Submission gate\<close>

definition getPreventSubmitConditions :: "'n IFormDocument \<Rightarrow> 'n ILogicSchema list" where
  "getPreventSubmitConditions form =
     (let formFieldIds = formFieldIdSet form
      in filter
           (\<lambda>formLogic. isPreventSubmitLogic formLogic
                \<and> allConditionsExist (conditions formLogic) formFieldIds)
           (formLogicUnits form))"

definition getLogicUnitPreventingSubmit ::
  "'n JSNumber \<Rightarrow> 'n LogicFieldSchemaOrResponse list \<Rightarrow> 'n IFormDocument
     \<Rightarrow> FieldIdSet option \<Rightarrow> 'n ILogicSchema option"
where
  "getLogicUnitPreventingSubmit ops submission form visibleFieldIds =
     (let definedVisibleFieldIds =
            (case visibleFieldIds of
               Some ids \<Rightarrow> ids
             | None \<Rightarrow> getVisibleFieldIds ops submission form);
          preventSubmitConditions = getPreventSubmitConditions form
      in List.find
           (\<lambda>logicUnit.
              isLogicUnitSatisfied ops submission (conditions logicUnit) definedVisibleFieldIds)
           preventSubmitConditions)"


section \<open>An instance of the number primitives\<close>

text \<open>
  The integers written in plain decimal, with \<open>None\<close> for \<^verbatim>\<open>NaN\<close>: enough to run the
  model on the inputs of the examples below. The empty string converts to zero, as in
  the language. On a string of decimal digits, with or without a minus sign, the
  instance computes what the language computes for integers a double holds exactly; on
  every other string it gives \<^verbatim>\<open>NaN\<close>, where the language may not (\<^verbatim>\<open>1.5\<close>, \<^verbatim>\<open>1e3\<close>). No
  theorem depends on it: it only evaluates the examples.
\<close>

definition digitValue :: "char \<Rightarrow> nat option" where
  "digitValue c =
     (if CHR ''0'' \<le> c \<and> c \<le> CHR ''9'' then Some (of_char c - of_char CHR ''0'') else None)"

fun parseDigits :: "string \<Rightarrow> nat \<Rightarrow> nat option" where
  "parseDigits [] acc = Some acc"
| "parseDigits (c # cs) acc =
     (case digitValue c of None \<Rightarrow> None | Some d \<Rightarrow> parseDigits cs (10 * acc + d))"

definition integerOfString :: "string \<Rightarrow> int option" where
  "integerOfString s =
     (case s of
        [] \<Rightarrow> Some 0
      | c # cs \<Rightarrow>
          if c = CHR ''-'' \<and> cs \<noteq> [] then map_option (\<lambda>n. - int n) (parseDigits cs 0)
          else map_option int (parseDigits s 0))"

fun stringOfNat :: "nat \<Rightarrow> string" where
  "stringOfNat n =
     (if n < 10 then [char_of (of_char CHR ''0'' + n)]
      else stringOfNat (n div 10) @ [char_of (of_char CHR ''0'' + n mod 10)])"

definition stringOfInteger :: "int option \<Rightarrow> string" where
  "stringOfInteger n =
     (case n of
        None \<Rightarrow> ''NaN''
      | Some i \<Rightarrow> if i < 0 then CHR ''-'' # stringOfNat (nat (- i)) else stringOfNat (nat i))"

definition integerLessEq :: "int option \<Rightarrow> int option \<Rightarrow> bool" where
  "integerLessEq a b = (case (a, b) of (Some i, Some j) \<Rightarrow> i \<le> j | _ \<Rightarrow> False)"

definition integerNumbers :: "(int option) JSNumber" where
  "integerNumbers =
     \<lparr>StringToNumber = integerOfString, NumberToString = stringOfInteger,
      lessEq = integerLessEq\<rparr>"


section \<open>The specification's wording, as definitions\<close>

text \<open>
  The units the index keeps, in the specification's words: the show-fields units all of
  whose conditions have a subject among the form's field ids.
\<close>

definition retainedUnits :: "'n IFormDocument \<Rightarrow> 'n ILogicSchema list" where
  "retainedUnits form =
     filter
       (\<lambda>unit. logicType unit = ShowFields
            \<and> (\<forall>condition \<in> set (conditions unit). field condition \<in> formFieldIdSet form))
       (formLogicUnits form)"

text \<open>
  The entry of a target in the specification's words: the condition group of every
  retained unit, in authoring order, once for each time the unit names the target in
  \<^verbatim>\<open>show\<close>; nothing for a target that is no field of the form.
\<close>

definition specGroups :: "'n IFormDocument \<Rightarrow> string \<Rightarrow> 'n IConditionSchema list list" where
  "specGroups form target =
     (if target \<in> formFieldIdSet form
      then concat
             (map (\<lambda>unit. map (\<lambda>_. conditions unit) (filter (\<lambda>fieldId. fieldId = target) (showIds unit)))
                (retainedUnits form))
      else [])"

text \<open>
  A malformed rule in the specification's words: a show-fields unit with a condition
  on an unknown field, or with show-targets that are all unknown.
\<close>

definition specMalformed :: "'n IFormDocument \<Rightarrow> 'n ILogicSchema \<Rightarrow> bool" where
  "specMalformed form unit =
     (logicType unit = ShowFields
      \<and> ((\<exists>condition \<in> set (conditions unit). field condition \<notin> formFieldIdSet form)
           \<or> (\<forall>fieldId \<in> set (showIds unit). fieldId \<notin> formFieldIdSet form)))"

text \<open>
  An AND-group counts in the specification's words when every condition has its subject
  in the visible set and evaluates true against the subject's answer, the first entry
  of the submission with the subject's id.
\<close>

definition groupSatisfied ::
  "'n JSNumber \<Rightarrow> 'n LogicFieldSchemaOrResponse list \<Rightarrow> FieldIdSet \<Rightarrow> 'n IConditionSchema list
     \<Rightarrow> bool"
where
  "groupSatisfied ops submission visible andGroup =
     (\<forall>condition \<in> set andGroup.
        field condition \<in> visible
        \<and> isConditionFulfilled ops (findConditionField submission (field condition))
             (Some condition))"

text \<open>
  One step of the specification's rule: the fields of the form that have no entry in
  the index, or an AND-group that counts for the given visible set.
\<close>

definition visibilityOperator ::
  "'n JSNumber \<Rightarrow> 'n LogicFieldSchemaOrResponse list \<Rightarrow> 'n IFormDocument \<Rightarrow> FieldIdSet
     \<Rightarrow> FieldIdSet"
where
  "visibilityOperator ops submission form visible =
     set (map field_id
       (filter
          (\<lambda>fld. case fst (groupLogicUnitsByField form) (field_id fld) of
                   None \<Rightarrow> True
                 | Some groups \<Rightarrow> \<exists>andGroup \<in> set groups. groupSatisfied ops submission visible andGroup)
          (formFields form)))"

text \<open>
  A unit blocks the submission in the specification's words: a prevent-submit unit, all
  of whose condition subjects are fields of the form, whose conditions all count for
  the visible set.
\<close>

definition blocksSubmit ::
  "'n JSNumber \<Rightarrow> 'n LogicFieldSchemaOrResponse list \<Rightarrow> 'n IFormDocument \<Rightarrow> FieldIdSet
     \<Rightarrow> 'n ILogicSchema \<Rightarrow> bool"
where
  "blocksSubmit ops submission form visible unit =
     (logicType unit = PreventSubmit
      \<and> (\<forall>condition \<in> set (conditions unit). field condition \<in> formFieldIdSet form)
      \<and> groupSatisfied ops submission visible (conditions unit))"


section \<open>Auxiliary definitions\<close>

text \<open>The entry of a target in an index, the empty sequence when it has none.\<close>

definition groupsOf :: "'n GroupedLogic \<Rightarrow> string \<Rightarrow> 'n IConditionSchema list list" where
  "groupsOf grouped target = (case grouped target of None \<Rightarrow> [] | Some gs \<Rightarrow> gs)"

text \<open>No entry of the index is an empty array: a key is created together with its first group.\<close>

definition noEmptyEntry :: "'n GroupedLogic \<Rightarrow> bool" where
  "noEmptyEntry grouped = (\<forall>target. grouped target \<noteq> Some [])"

text \<open>
  The second conjunct of the test inside the sweep:
  \<^verbatim>\<open>!logicUnits || logicUnits.some(...)\<close>.
\<close>

definition showable ::
  "'n JSNumber \<Rightarrow> 'n LogicFieldSchemaOrResponse list \<Rightarrow> 'n GroupedLogic \<Rightarrow> FieldIdSet
     \<Rightarrow> IFieldSchema \<Rightarrow> bool"
where
  "showable ops submission grouped visible fld =
     (case grouped (field_id fld) of
        None \<Rightarrow> True
      | Some logicUnits \<Rightarrow>
          list_ex (\<lambda>logicUnit. isLogicUnitSatisfied ops submission logicUnit visible) logicUnits)"


section \<open>Example inputs\<close>

definition response :: "string \<Rightarrow> BasicField \<Rightarrow> (int option) JSValue
    \<Rightarrow> (int option) LogicFieldSchemaOrResponse" where
  "response i t v =
     \<lparr>field_id = i, fieldType = t, fieldValue = None, answer = Some v, answerArray = None\<rparr>"

definition clientField :: "string \<Rightarrow> BasicField \<Rightarrow> (int option) JSValue
    \<Rightarrow> (int option) LogicFieldSchemaOrResponse" where
  "clientField i t v =
     \<lparr>field_id = i, fieldType = t, fieldValue = Some v, answer = None, answerArray = None\<rparr>"

definition eitherFiveOrSix :: "(int option) IConditionSchema" where
  "eitherFiveOrSix = \<lparr>field = ''n1'', state = Either, cvalue = Arr [Str ''5'', Str ''6'']\<rparr>"

definition equalOthers :: "(int option) IConditionSchema" where
  "equalOthers = \<lparr>field = ''r1'', state = Equal, cvalue = Str ''Others''\<rparr>"

definition gteFive :: "(int option) IConditionSchema" where
  "gteFive = \<lparr>field = ''n1'', state = Gte, cvalue = Num (Some 5)\<rparr>"

definition anyOfAB :: "(int option) IConditionSchema" where
  "anyOfAB =
     \<lparr>field = ''c1'', state = AnyOf,
      cvalue = Arr [CheckboxVal \<lparr>options = [''C''], others = True\<rparr>,
                    CheckboxVal \<lparr>options = [''A'', ''B''], others = False\<rparr>]\<rparr>"

definition equalOptionA :: "(int option) IConditionSchema" where
  "equalOptionA = \<lparr>field = ''d1'', state = Equal, cvalue = Str ''Option A''\<rparr>"

definition gteHundred :: "(int option) IConditionSchema" where
  "gteHundred = \<lparr>field = ''n1'', state = Gte, cvalue = Num (Some 100)\<rparr>"

definition exampleFields :: "IFieldSchema list" where
  "exampleFields =
     [\<lparr>field_id = ''e1'', fieldType = OtherField ''email''\<rparr>,
      \<lparr>field_id = ''d1'', fieldType = Dropdown\<rparr>,
      \<lparr>field_id = ''n1'', fieldType = Number\<rparr>]"

text \<open>
  The form of the specification's scenarios: show the email field when the dropdown is
  ``Option A'', and prevent submission when the number is at least 100.
\<close>

definition exampleForm :: "(int option) IFormDocument" where
  "exampleForm =
     \<lparr>form_id = Some ''form1'', form_fields = Some exampleFields,
      form_logics =
        Some [IShowFieldsLogicSchema [equalOptionA] [''e1''],
              IPreventSubmitLogicSchema [gteHundred] None]\<rparr>"

definition exampleSubmission :: "(int option) LogicFieldSchemaOrResponse list" where
  "exampleSubmission = [response ''d1'' Dropdown (Str ''Option A''), response ''n1'' Number (Str ''150'')]"

text \<open>A form whose only rule shows a field that is no longer in the form.\<close>

definition unknownTargetForm :: "(int option) IFormDocument" where
  "unknownTargetForm =
     \<lparr>form_id = Some ''form2'', form_fields = Some exampleFields,
      form_logics = Some [IShowFieldsLogicSchema [equalOptionA] [''gone'']]\<rparr>"

text \<open>A form object without an id, with one rule on a field that is no longer in the form.\<close>

definition noIdForm :: "(int option) IFormDocument" where
  "noIdForm =
     \<lparr>form_id = None, form_fields = Some exampleFields,
      form_logics =
        Some [IShowFieldsLogicSchema [\<lparr>field = ''gone'', state = Equal, cvalue = Str ''x''\<rparr>] [''e1'']]\<rparr>"

text \<open>A form with one rule on a field that is no longer in the form.\<close>

definition unknownConditionForm :: "(int option) IFormDocument" where
  "unknownConditionForm =
     \<lparr>form_id = Some ''form3'', form_fields = Some exampleFields,
      form_logics =
        Some [IShowFieldsLogicSchema [\<lparr>field = ''gone'', state = Equal, cvalue = Str ''x''\<rparr>] [''e1''],
              IShowFieldsLogicSchema [equalOptionA] [''e1'', ''gone'', ''n1'']]\<rparr>"


section \<open>Condition evaluator: theorems\<close>

lemma startsWith_nonempty: "startsWith s ''Others: '' \<Longrightarrow> s \<noteq> []"
  by (auto simp: startsWith_def)

lemma isLogicCheckboxCondition_iff:
  fixes condition :: "'n IConditionSchema"
  shows "isLogicCheckboxCondition condition
     \<longleftrightarrow> (\<exists>cands. cvalue condition = Arr (map CheckboxVal cands))"
proof
  assume "isLogicCheckboxCondition condition"
  then obtain xs where xs: "cvalue condition = Arr xs" "list_all isCheckboxConditionValue xs"
    by (cases "cvalue condition") (auto simp: isLogicCheckboxCondition_def)
  have "\<exists>cands. xs = map (CheckboxVal :: _ \<Rightarrow> 'n JSValue) cands" using xs(2)
  proof (induction xs)
    case Nil
    then show ?case by simp
  next
    case (Cons a xs)
    then obtain cands where "xs = map CheckboxVal cands" by auto
    moreover from Cons.prems obtain cv where "a = CheckboxVal cv" by (cases a) auto
    ultimately have "a # xs = map CheckboxVal (cv # cands)" by simp
    then show ?case by (rule exI)
  qed
  with xs(1) show "\<exists>cands. cvalue condition = Arr (map CheckboxVal cands)" by auto
next
  assume "\<exists>cands. cvalue condition = Arr (map CheckboxVal cands)"
  then show "isLogicCheckboxCondition condition"
    by (auto simp: isLogicCheckboxCondition_def list_all_iff)
qed

lemma sortOptions_eq_iff:
  "sortOptions (CheckboxVal cur) = sortOptions (CheckboxVal cand)
     \<longleftrightarrow> sort (options cur) = sort (options cand) \<and> others cur = others cand"
  by (cases cur; cases cand) auto

text \<open>
  Claim C1, as stated: the evaluator returns true only for a pair of operator and field
  type of the table. It fails: a Number field answered \<^verbatim>\<open>5\<close> fulfils
  \<^verbatim>\<open>{Either, ["5", "6"]}\<close>, and Either is not among the operators of Number. The
  evaluation calls none of the number primitives.
\<close>

theorem isConditionFulfilled_table_counterexample:
  "isConditionFulfilled integerNumbers (Some (response ''n1'' Number (Str ''5'')))
     (Some eitherFiveOrSix)
   \<and> state eitherFiveOrSix \<notin> set (getApplicableIfStates Number)"
  by (simp add: isConditionFulfilled_def isLogicField_def LOGIC_MAP_def LOGIC_CONDITIONS_def
      response_def eitherFiveOrSix_def getCurrentValue_def conditionValues_def
      getApplicableIfStates_def)

text \<open>
  Claim C1, amended: the evaluator returns true only for a field whose type is one of
  the seven of the table, and for an AnyOf condition only when that type is Checkbox;
  for every field type outside the table, and for an absent field or condition, it
  returns false. The operators Equal, Either, Lte and Gte are not checked against the
  operator list of the field type.
\<close>

theorem isConditionFulfilled_table_amended:
  assumes "isConditionFulfilled ops field' condition'"
  shows "\<exists>fld condition. field' = Some fld \<and> condition' = Some condition
     \<and> fieldType fld \<in> fst ` set LOGIC_CONDITIONS
     \<and> (state condition = AnyOf \<longrightarrow> fieldType fld = Checkbox)"
proof -
  from assms obtain fld condition where some: "field' = Some fld" "condition' = Some condition"
    by (cases field'; cases condition') (simp_all add: isConditionFulfilled_def)
  from assms some have "LOGIC_MAP (fieldType fld) \<noteq> None"
    by (auto simp: isConditionFulfilled_def isLogicField_def split: if_splits)
  then have "fieldType fld \<in> fst ` set LOGIC_CONDITIONS"
    by (simp add: LOGIC_MAP_def map_of_eq_None_iff)
  moreover from assms some have "state condition = AnyOf \<longrightarrow> fieldType fld = Checkbox"
    by (auto simp: isConditionFulfilled_def Let_def split: if_splits)
  ultimately show ?thesis using some by blast
qed

theorem isConditionFulfilled_table_amended_witness:
  "isConditionFulfilled integerNumbers (Some (response ''n1'' Number (Str ''5'')))
     (Some eitherFiveOrSix)
   \<and> Number \<in> fst ` set LOGIC_CONDITIONS
   \<and> state eitherFiveOrSix \<noteq> AnyOf"
proof -
  have fulfilled: "isConditionFulfilled integerNumbers (Some (response ''n1'' Number (Str ''5'')))
     (Some eitherFiveOrSix)"
    by (simp add: isConditionFulfilled_def isLogicField_def LOGIC_MAP_def LOGIC_CONDITIONS_def
        response_def eitherFiveOrSix_def getCurrentValue_def conditionValues_def)
  from isConditionFulfilled_table_amended [OF fulfilled] fulfilled show ?thesis
    by (simp add: response_def eitherFiveOrSix_def)
qed

text \<open>
  Claim C4: for a Radio field and a condition with operator Equal or Either whose values
  include the string \<^verbatim>\<open>Others\<close>, the evaluator returns true when the answer is the
  sentinel \<^verbatim>\<open>radioButtonOthers\<close> of the live form, and when the answer is a string that
  begins with \<^verbatim>\<open>Others: \<close>.
\<close>

theorem isConditionFulfilled_radio_others:
  assumes "fieldType fld = Radio"
    and "state condition = Equal \<or> state condition = Either"
    and "Str ''Others'' \<in> set (concatValue (cvalue condition))"
    and "getCurrentValue fld = Str s"
    and "s = ''radioButtonOthers'' \<or> startsWith s ''Others: ''"
  shows "isConditionFulfilled ops (Some fld) (Some condition)"
proof -
  have logic: "isLogicField fld"
    using assms(1) by (simp add: isLogicField_def LOGIC_MAP_def LOGIC_CONDITIONS_def)
  have nonempty: "s \<noteq> []"
    using assms(5) startsWith_nonempty by auto
  have "String_js ops (Str ''Others'') \<in> String_js ops ` set (concatValue (cvalue condition))"
    using assms(3) by (rule imageI)
  then have others: "''Others'' \<in> set (conditionValues ops condition)"
    by (simp add: conditionValues_def)
  show ?thesis
    using logic nonempty others assms(1,2,4,5)
    by (auto simp: isConditionFulfilled_def Let_def)
qed

theorem isConditionFulfilled_radio_others_witness:
  "isConditionFulfilled integerNumbers (Some (clientField ''r1'' Radio (Str ''radioButtonOthers'')))
     (Some equalOthers)
   \<and> isConditionFulfilled integerNumbers (Some (response ''r1'' Radio (Str ''Others: custom text'')))
       (Some equalOthers)"
proof -
  have "isConditionFulfilled integerNumbers
      (Some (clientField ''r1'' Radio (Str ''radioButtonOthers''))) (Some equalOthers)"
    by (rule isConditionFulfilled_radio_others [where s = "''radioButtonOthers''"])
      (simp_all add: clientField_def equalOthers_def getCurrentValue_def)
  moreover have "isConditionFulfilled integerNumbers
      (Some (response ''r1'' Radio (Str ''Others: custom text''))) (Some equalOthers)"
    by (rule isConditionFulfilled_radio_others [where s = "''Others: custom text''"])
      (simp_all add: response_def equalOthers_def getCurrentValue_def startsWith_def)
  ultimately show ?thesis by simp
qed

text \<open>
  Claim C7: the evaluator returns false, and raises nothing (no branch of it can raise),
  whenever the current value of the subject is absent (\<^verbatim>\<open>null\<close>, \<^verbatim>\<open>undefined\<close>, or none
  of the three attributes present), the empty string or the empty array, or the type of
  the subject is not in the table. The witness is the Number field with the empty
  string as answer and the condition \<^verbatim>\<open>{Gte, 5}\<close>.
\<close>

theorem isConditionFulfilled_absent_or_empty:
  assumes "getCurrentValue fld = Null \<or> getCurrentValue fld = Undefined
     \<or> getCurrentValue fld = Str [] \<or> getCurrentValue fld = Arr []
     \<or> LOGIC_MAP (fieldType fld) = None"
  shows "\<not> isConditionFulfilled ops (Some fld) (Some condition)"
  using assms
  by (auto simp: isConditionFulfilled_def isLogicField_def Let_def)

theorem isConditionFulfilled_absent_or_empty_witness:
  "getCurrentValue (response ''n1'' Number (Str [])) = Str []
   \<and> \<not> isConditionFulfilled integerNumbers (Some (response ''n1'' Number (Str [])))
         (Some gteFive)"
proof -
  have empty: "getCurrentValue (response ''n1'' Number (Str [])) = Str []"
    by (simp add: response_def getCurrentValue_def)
  then have "\<not> isConditionFulfilled integerNumbers (Some (response ''n1'' Number (Str [])))
      (Some gteFive)"
    by (intro isConditionFulfilled_absent_or_empty) simp
  with empty show ?thesis by simp
qed

text \<open>
  Claim C8: an AnyOf condition is fulfilled if and only if the subject is a Checkbox
  field, the value of the condition is an array of \<^verbatim>\<open>{options, others}\<close> values, the
  current answer is such a value too, and for one of the candidates of the condition
  the sorted options are those of the answer, sorted, and the \<^verbatim>\<open>others\<close> flag is the
  same.
\<close>

theorem isConditionFulfilled_anyOf:
  fixes ops :: "'n JSNumber"
  assumes "state condition = AnyOf"
  shows "isConditionFulfilled ops (Some fld) (Some condition) \<longleftrightarrow>
     fieldType fld = Checkbox
     \<and> (\<exists>cands cur. cvalue condition = Arr (map CheckboxVal cands)
           \<and> getCurrentValue fld = CheckboxVal cur
           \<and> (\<exists>cand \<in> set cands. sort (options cur) = sort (options cand)
                  \<and> others cur = others cand))"
proof (cases "fieldType fld = Checkbox \<and> isLogicCheckboxCondition condition
     \<and> isCheckboxConditionValue (getCurrentValue fld)")
  case True
  then obtain cands where cands: "cvalue condition = Arr (map CheckboxVal cands)"
    using isLogicCheckboxCondition_iff by blast
  from True obtain cur where cur: "getCurrentValue fld = CheckboxVal cur"
    by (cases "getCurrentValue fld") auto
  have logic: "isLogicField fld"
    using True by (simp add: isLogicField_def LOGIC_MAP_def LOGIC_CONDITIONS_def)
  have "isConditionFulfilled ops (Some fld) (Some condition) \<longleftrightarrow>
      list_ex (\<lambda>val. sortOptions (CheckboxVal cur :: 'n JSValue) = val)
        (map sortOptions (map CheckboxVal cands))"
    using True logic assms cands cur
    by (simp add: isConditionFulfilled_def Let_def del: sortOptions.simps)
  also have "\<dots> \<longleftrightarrow> (\<exists>cand \<in> set cands. sort (options cur) = sort (options cand)
                  \<and> others cur = others cand)"
    by (auto simp: list_ex_iff image_iff sortOptions_eq_iff simp del: sortOptions.simps)
  finally show ?thesis
    using True cands cur by (auto dest!: map_injective simp: inj_on_def)
next
  case False
  then have "\<not> isConditionFulfilled ops (Some fld) (Some condition)"
    using assms by (auto simp: isConditionFulfilled_def Let_def)
  moreover have "\<not> (fieldType fld = Checkbox
     \<and> (\<exists>cands cur. cvalue condition = Arr (map CheckboxVal cands)
           \<and> getCurrentValue fld = CheckboxVal cur
           \<and> (\<exists>cand \<in> set cands. sort (options cur) = sort (options cand)
                  \<and> others cur = others cand)))"
    using False isLogicCheckboxCondition_iff [of condition] by auto
  ultimately show ?thesis by blast
qed

theorem isConditionFulfilled_anyOf_witness:
  "state anyOfAB = AnyOf
   \<and> isConditionFulfilled integerNumbers
       (Some (clientField ''c1'' Checkbox (CheckboxVal \<lparr>options = [''B'', ''A''], others = False\<rparr>)))
       (Some anyOfAB)"
proof -
  have st: "state anyOfAB = AnyOf"
    by (simp add: anyOfAB_def)
  have "\<exists>cands cur. cvalue anyOfAB = Arr (map CheckboxVal cands)
      \<and> getCurrentValue (clientField ''c1'' Checkbox
            (CheckboxVal \<lparr>options = [''B'', ''A''], others = False\<rparr>)) = CheckboxVal cur
      \<and> (\<exists>cand \<in> set cands. sort (options cur) = sort (options cand) \<and> others cur = others cand)"
    by (intro exI [of _ "[\<lparr>options = [''C''], others = True\<rparr>, \<lparr>options = [''A'', ''B''], others = False\<rparr>]"]
        exI [of _ "\<lparr>options = [''B'', ''A''], others = False\<rparr>"])
      (simp add: anyOfAB_def clientField_def getCurrentValue_def)
  with isConditionFulfilled_anyOf [OF st, of integerNumbers
      "clientField ''c1'' Checkbox (CheckboxVal \<lparr>options = [''B'', ''A''], others = False\<rparr>)"] st
  show ?thesis by (simp add: clientField_def)
qed


section \<open>Logic grouping index: theorems\<close>

lemma addShowTarget_groupsOf:
  "groupsOf (addShowTarget ids conds g s) t
     = groupsOf g t @ (if s = t \<and> t \<in> ids then [conds] else [])"
  by (simp add: addShowTarget_def groupsOf_def)

lemma addShowTarget_noEmptyEntry:
  "noEmptyEntry g \<Longrightarrow> noEmptyEntry (addShowTarget ids conds g s)"
  by (simp add: addShowTarget_def noEmptyEntry_def)

lemma foldl_addShowTarget_groupsOf:
  "groupsOf (foldl (addShowTarget ids conds) g targets) t
     = groupsOf g t
       @ (if t \<in> ids then map (\<lambda>_. conds) (filter (\<lambda>s. s = t) targets) else [])"
  by (induction targets arbitrary: g) (simp_all add: addShowTarget_groupsOf)

lemma foldl_addShowTarget_noEmptyEntry:
  "noEmptyEntry g \<Longrightarrow> noEmptyEntry (foldl (addShowTarget ids conds) g targets)"
  by (induction targets arbitrary: g) (simp_all add: addShowTarget_noEmptyEntry)

lemma foldl_groupStep_groupsOf:
  "groupsOf (fst (foldl (groupStep ids) st units)) t
     = groupsOf (fst st) t
       @ (if t \<in> ids
          then concat (map (\<lambda>u. map (\<lambda>_. conditions u) (filter (\<lambda>s. s = t) (showIds u)))
                 (filter (\<lambda>u. allConditionsExist (conditions u) ids) units))
          else [])"
  by (induction units arbitrary: st)
    (simp_all add: groupStep_def foldl_addShowTarget_groupsOf)

lemma foldl_groupStep_noEmptyEntry:
  "noEmptyEntry (fst st) \<Longrightarrow> noEmptyEntry (fst (foldl (groupStep ids) st units))"
  by (induction units arbitrary: st)
    (simp_all add: groupStep_def foldl_addShowTarget_noEmptyEntry)

lemma foldl_groupStep_flag:
  "snd (foldl (groupStep ids) st units)
     \<longleftrightarrow> snd st \<or> (\<exists>u \<in> set units. \<not> allConditionsExist (conditions u) ids)"
  by (induction units arbitrary: st) (auto simp: groupStep_def)

lemma retainedUnits_alt:
  "retainedUnits form
     = filter (\<lambda>u. allConditionsExist (conditions u) (formFieldIdSet form))
         (filter isShowFieldsLogic (formLogicUnits form))"
  by (simp add: retainedUnits_def allConditionsExist_def isShowFieldsLogic_def list_all_iff
      conj_commute)

lemma groupsOf_empty: "groupsOf Map.empty t = []"
  by (simp add: groupsOf_def)

lemma groupsOf_index: "groupsOf (fst (groupLogicUnitsByField form)) t = specGroups form t"
  by (simp add: groupLogicUnitsByField_def Let_def foldl_groupStep_groupsOf specGroups_def
      retainedUnits_alt groupsOf_empty)

lemma noEmptyEntry_index: "noEmptyEntry (fst (groupLogicUnitsByField form))"
proof -
  have "noEmptyEntry (fst (Map.empty :: 'a GroupedLogic, False))"
    by (simp add: noEmptyEntry_def)
  then have "noEmptyEntry (fst (foldl (groupStep (formFieldIdSet form)) (Map.empty, False)
      (filter isShowFieldsLogic (formLogicUnits form))))"
    by (rule foldl_groupStep_noEmptyEntry)
  then show ?thesis
    by (simp add: groupLogicUnitsByField_def Let_def)
qed

lemma index_lookup:
  "fst (groupLogicUnitsByField form) t
     = (if specGroups form t = [] then None else Some (specGroups form t))"
  using groupsOf_index [of form t] noEmptyEntry_index [of form]
  by (auto simp: groupsOf_def noEmptyEntry_def split: option.splits)

lemma formFieldIdSet_logics_update [simp]:
  "formFieldIdSet (form\<lparr>form_logics := ls\<rparr>) = formFieldIdSet form"
  by (simp add: formFieldIdSet_def formFields_def)

lemma formLogicUnits_update [simp]:
  "formLogicUnits (form\<lparr>form_logics := Some ls\<rparr>) = ls"
  by (simp add: formLogicUnits_def)

lemma log_char:
  "snd (groupLogicUnitsByField form)
     = (if truthyId (form_id form)
           \<and> (\<exists>unit \<in> set (formLogicUnits form). logicType unit = ShowFields
                 \<and> (\<exists>condition \<in> set (conditions unit). field condition \<notin> formFieldIdSet form))
        then [invalidLogicMessage (form_id form)] else [])"
  by (auto simp: groupLogicUnitsByField_def Let_def foldl_groupStep_flag isShowFieldsLogic_def
      allConditionsExist_def list_all_iff)

lemma retainedUnits_idem:
  "retainedUnits (form\<lparr>form_logics := Some (retainedUnits form)\<rparr>) = retainedUnits form"
  by (simp add: retainedUnits_def)

lemma index_retained:
  "fst (groupLogicUnitsByField (form\<lparr>form_logics := Some (retainedUnits form)\<rparr>))
     = fst (groupLogicUnitsByField form)"
proof
  fix t
  have "specGroups (form\<lparr>form_logics := Some (retainedUnits form)\<rparr>) t = specGroups form t"
    unfolding specGroups_def retainedUnits_idem by simp
  then show "fst (groupLogicUnitsByField (form\<lparr>form_logics := Some (retainedUnits form)\<rparr>)) t
     = fst (groupLogicUnitsByField form) t"
    by (simp add: index_lookup)
qed

text \<open>
  Claim C5: the index keeps only the show-fields units all of whose condition subjects
  are field ids of the form, and appends the condition group of each such unit to every
  show-target that is a field id of the form. So the entry of a target is the sequence
  \<open>specGroups\<close> (no entry when that is empty, and none for an id that is no field of the
  form); a unit with a condition on an unknown field changes no entry, wherever it
  stands; and an unknown show-target of a unit changes no entry either.
\<close>

theorem groupLogicUnitsByField_index:
  fixes form :: "'n IFormDocument"
  shows "fst (groupLogicUnitsByField form) target
       = (if specGroups form target = [] then None else Some (specGroups form target))
     \<and> (target \<notin> formFieldIdSet form \<longrightarrow> fst (groupLogicUnitsByField form) target = None)
     \<and> ((\<exists>condition \<in> set (conditions unit). field condition \<notin> formFieldIdSet form) \<longrightarrow>
         fst (groupLogicUnitsByField (form\<lparr>form_logics := Some (before @ unit # after)\<rparr>))
           = fst (groupLogicUnitsByField (form\<lparr>form_logics := Some (before @ after)\<rparr>)))
     \<and> (unknown \<notin> formFieldIdSet form \<longrightarrow>
         fst (groupLogicUnitsByField (form\<lparr>form_logics :=
                Some (before @ IShowFieldsLogicSchema conds (ids1 @ unknown # ids2) # after)\<rparr>))
           = fst (groupLogicUnitsByField (form\<lparr>form_logics :=
                Some (before @ IShowFieldsLogicSchema conds (ids1 @ ids2) # after)\<rparr>)))"
proof (intro conjI impI)
  show "fst (groupLogicUnitsByField form) target
       = (if specGroups form target = [] then None else Some (specGroups form target))"
    by (rule index_lookup)
  show "fst (groupLogicUnitsByField form) target = None" if "target \<notin> formFieldIdSet form"
    using that by (simp add: index_lookup specGroups_def)
  show "fst (groupLogicUnitsByField (form\<lparr>form_logics := Some (before @ unit # after)\<rparr>))
           = fst (groupLogicUnitsByField (form\<lparr>form_logics := Some (before @ after)\<rparr>))"
    if bad: "\<exists>condition \<in> set (conditions unit). field condition \<notin> formFieldIdSet form"
  proof -
    have "retainedUnits (form\<lparr>form_logics := Some (before @ unit # after)\<rparr>)
        = retainedUnits (form\<lparr>form_logics := Some (before @ after)\<rparr>)"
      using bad by (auto simp: retainedUnits_def)
    then have "specGroups (form\<lparr>form_logics := Some (before @ unit # after)\<rparr>) t
        = specGroups (form\<lparr>form_logics := Some (before @ after)\<rparr>) t" for t
      by (simp add: specGroups_def)
    then show ?thesis
      by (intro ext) (simp add: index_lookup)
  qed
  show "fst (groupLogicUnitsByField (form\<lparr>form_logics :=
                Some (before @ IShowFieldsLogicSchema conds (ids1 @ unknown # ids2) # after)\<rparr>))
           = fst (groupLogicUnitsByField (form\<lparr>form_logics :=
                Some (before @ IShowFieldsLogicSchema conds (ids1 @ ids2) # after)\<rparr>))"
    if unknown: "unknown \<notin> formFieldIdSet form"
  proof -
    have "specGroups (form\<lparr>form_logics :=
                Some (before @ IShowFieldsLogicSchema conds (ids1 @ unknown # ids2) # after)\<rparr>) t
        = specGroups (form\<lparr>form_logics :=
                Some (before @ IShowFieldsLogicSchema conds (ids1 @ ids2) # after)\<rparr>) t" for t
      using unknown by (auto simp: specGroups_def retainedUnits_def)
    then show ?thesis
      by (intro ext) (simp add: index_lookup)
  qed
qed

theorem groupLogicUnitsByField_index_witness:
  "fst (groupLogicUnitsByField unknownConditionForm) ''e1'' = Some [[equalOptionA]]
   \<and> fst (groupLogicUnitsByField unknownConditionForm) ''n1'' = Some [[equalOptionA]]
   \<and> ''gone'' \<notin> formFieldIdSet unknownConditionForm
   \<and> fst (groupLogicUnitsByField unknownConditionForm) ''gone'' = None"
  using groupLogicUnitsByField_index [of unknownConditionForm "''e1''"]
    groupLogicUnitsByField_index [of unknownConditionForm "''n1''"]
    groupLogicUnitsByField_index [of unknownConditionForm "''gone''"]
  by (simp add: specGroups_def retainedUnits_def unknownConditionForm_def formLogicUnits_def
      formFieldIdSet_def formFields_def exampleFields_def equalOptionA_def)

text \<open>
  Claim C9, as stated: the index build writes its message if and only if a unit was
  dropped as malformed, where a unit whose show-targets are all unknown counts as
  malformed. It fails twice. The only rule of the first form shows a field that is no
  longer in the form: no entry of the index comes from it, and nothing is written. The
  only rule of the second form has a condition on a field that is no longer in the
  form, and the form object has no id: nothing is written either.
\<close>

theorem groupLogicUnitsByField_diagnostic_counterexample:
  "IShowFieldsLogicSchema [equalOptionA] [''gone''] \<in> set (formLogicUnits unknownTargetForm)
   \<and> specMalformed unknownTargetForm (IShowFieldsLogicSchema [equalOptionA] [''gone''])
   \<and> snd (groupLogicUnitsByField unknownTargetForm) = []
   \<and> IShowFieldsLogicSchema [\<lparr>field = ''gone'', state = Equal, cvalue = Str ''x''\<rparr>] [''e1'']
         \<in> set (formLogicUnits noIdForm)
   \<and> specMalformed noIdForm
         (IShowFieldsLogicSchema [\<lparr>field = ''gone'', state = Equal, cvalue = Str ''x''\<rparr>] [''e1''])
   \<and> snd (groupLogicUnitsByField noIdForm) = []"
  by (simp add: unknownTargetForm_def noIdForm_def formLogicUnits_def specMalformed_def
      formFieldIdSet_def formFields_def exampleFields_def groupLogicUnitsByField_def
      isShowFieldsLogic_def groupStep_def allConditionsExist_def equalOptionA_def
      addShowTarget_def truthyId_def)

text \<open>
  Claim C9, amended: the index build writes exactly one informational message if and
  only if the form has an id (\<^verbatim>\<open>form._id\<close> is truthy) and at least one show-fields unit has
  a condition on an unknown field id, and writes nothing otherwise; unknown
  show-targets are skipped without a message. In every case it returns the index of the
  retained units, and no branch of it can raise.
\<close>

theorem groupLogicUnitsByField_diagnostic_amended:
  "snd (groupLogicUnitsByField form)
     = (if truthyId (form_id form)
           \<and> (\<exists>unit \<in> set (formLogicUnits form). logicType unit = ShowFields
                 \<and> (\<exists>condition \<in> set (conditions unit). field condition \<notin> formFieldIdSet form))
        then [invalidLogicMessage (form_id form)] else [])
   \<and> fst (groupLogicUnitsByField form)
       = fst (groupLogicUnitsByField (form\<lparr>form_logics := Some (retainedUnits form)\<rparr>))"
  using log_char [of form] index_retained [of form] by simp

theorem groupLogicUnitsByField_diagnostic_amended_witness:
  "truthyId (form_id unknownConditionForm)
   \<and> snd (groupLogicUnitsByField unknownConditionForm) = [invalidLogicMessage (Some ''form3'')]"
  using groupLogicUnitsByField_diagnostic_amended [of unknownConditionForm]
  by (simp add: unknownConditionForm_def formLogicUnits_def
      formFieldIdSet_def formFields_def exampleFields_def equalOptionA_def truthyId_def)


section \<open>Visibility resolver: theorems\<close>

lemma sweep_Cons:
  "sweep ops submission grouped (fld # rest) st =
     (if field_id fld \<notin> fst st \<and> showable ops submission grouped (fst st) fld
      then sweep ops submission grouped rest (insert (field_id fld) (fst st), True)
      else sweep ops submission grouped rest st)"
  by (simp add: showable_def)

lemma sweep_grows: "fst st \<subseteq> fst (sweep ops submission grouped flds st)"
proof (induction flds arbitrary: st)
  case Nil
  show ?case by simp
next
  case (Cons fld rest)
  have "fst st \<subseteq> fst (sweep ops submission grouped rest (insert (field_id fld) (fst st), True))"
    using Cons [of "(insert (field_id fld) (fst st), True)"] by simp
  with Cons [of st] show ?case by (simp only: sweep_Cons split: if_split) simp
qed

lemma sweep_bounded:
  "fst (sweep ops submission grouped flds st) \<subseteq> fst st \<union> field_id ` set flds"
proof (induction flds arbitrary: st)
  case Nil
  show ?case by simp
next
  case (Cons fld rest)
  from Cons [of "(insert (field_id fld) (fst st), True)"] Cons [of st]
  show ?case by (simp only: sweep_Cons split: if_split) auto
qed

lemma sweep_flag:
  "snd (sweep ops submission grouped flds st)
     \<longleftrightarrow> snd st \<or> fst (sweep ops submission grouped flds st) \<noteq> fst st"
proof (induction flds arbitrary: st)
  case Nil
  show ?case by simp
next
  case (Cons fld rest)
  show ?case
  proof (cases "field_id fld \<notin> fst st \<and> showable ops submission grouped (fst st) fld")
    case True
    have "field_id fld \<in> fst (sweep ops submission grouped rest (insert (field_id fld) (fst st), True))"
      using sweep_grows [of "(insert (field_id fld) (fst st), True)" ops submission grouped rest]
      by simp
    with True have "fst (sweep ops submission grouped (fld # rest) st) \<noteq> fst st"
      by (auto simp only: sweep_Cons split: if_split)
    moreover have "snd (sweep ops submission grouped (fld # rest) st)"
      using True Cons [of "(insert (field_id fld) (fst st), True)"]
      by (simp only: sweep_Cons) simp
    ultimately show ?thesis by simp
  next
    case False
    then have "sweep ops submission grouped (fld # rest) st = sweep ops submission grouped rest st"
      by (simp only: sweep_Cons) simp
    with Cons [of st] show ?thesis by simp
  qed
qed

lemma sweep_closed:
  "fst (sweep ops submission grouped flds st) = fst st \<Longrightarrow> fld \<in> set flds \<Longrightarrow>
     field_id fld \<in> fst st \<or> \<not> showable ops submission grouped (fst st) fld"
proof (induction flds arbitrary: st)
  case Nil
  then show ?case by simp
next
  case (Cons a rest)
  show ?case
  proof (cases "field_id a \<notin> fst st \<and> showable ops submission grouped (fst st) a")
    case True
    have "field_id a \<in> fst (sweep ops submission grouped rest (insert (field_id a) (fst st), True))"
      using sweep_grows [of "(insert (field_id a) (fst st), True)" ops submission grouped rest]
      by simp
    with True have "fst (sweep ops submission grouped (a # rest) st) \<noteq> fst st"
      by (auto simp only: sweep_Cons split: if_split)
    with Cons.prems show ?thesis by simp
  next
    case False
    then have eq: "sweep ops submission grouped (a # rest) st = sweep ops submission grouped rest st"
      by (simp only: sweep_Cons) simp
    show ?thesis
    proof (cases "fld = a")
      case True
      with False show ?thesis by auto
    next
      case neq: False
      with Cons.prems eq have "fst (sweep ops submission grouped rest st) = fst st" "fld \<in> set rest"
        by auto
      then show ?thesis by (rule Cons.IH)
    qed
  qed
qed

lemma isLogicUnitSatisfied_groupSatisfied:
  "isLogicUnitSatisfied ops submission logicUnit visible
     \<longleftrightarrow> groupSatisfied ops submission visible logicUnit"
proof -
  have "(case findConditionField submission (field c) of
            None \<Rightarrow> False
          | Some cf \<Rightarrow> field_id cf \<in> visible \<and> isConditionFulfilled ops (Some cf) (Some c))
        \<longleftrightarrow> field c \<in> visible
              \<and> isConditionFulfilled ops (findConditionField submission (field c)) (Some c)" for c
  proof (cases "findConditionField submission (field c)")
    case None
    then show ?thesis by (simp add: isConditionFulfilled_def)
  next
    case (Some cf)
    then have "field_id cf = field c"
      by (auto simp: findConditionField_def find_Some_iff)
    with Some show ?thesis by simp
  qed
  then show ?thesis
    by (simp add: isLogicUnitSatisfied_def groupSatisfied_def list_all_iff)
qed

lemma groupSatisfied_mono:
  "groupSatisfied ops submission V g \<Longrightarrow> V \<subseteq> W \<Longrightarrow> groupSatisfied ops submission W g"
  by (auto simp: groupSatisfied_def)

lemma showable_mono:
  "showable ops submission grouped V fld \<Longrightarrow> V \<subseteq> W \<Longrightarrow> showable ops submission grouped W fld"
  by (auto simp: showable_def list_ex_iff isLogicUnitSatisfied_groupSatisfied
      intro: groupSatisfied_mono split: option.splits)

lemma visibilityOperator_iff:
  "x \<in> visibilityOperator ops submission form V \<longleftrightarrow>
     (\<exists>fld \<in> set (formFields form). x = field_id fld
        \<and> showable ops submission (fst (groupLogicUnitsByField form)) V fld)"
  by (auto simp: visibilityOperator_def showable_def list_ex_iff
      isLogicUnitSatisfied_groupSatisfied split: option.splits)

lemma visibilityOperator_mono: "mono (visibilityOperator ops submission form)"
proof (rule monoI, rule subsetI)
  fix V W :: FieldIdSet and x
  assume "V \<subseteq> W" and "x \<in> visibilityOperator ops submission form V"
  then show "x \<in> visibilityOperator ops submission form W"
    unfolding visibilityOperator_iff by (blast intro: showable_mono)
qed

lemma sweepLoop_unfold:
  "sweepLoop ops submission grouped flds vis =
     (if snd (sweep ops submission grouped flds (vis, False))
      then (fst (sweepLoop ops submission grouped flds
                  (fst (sweep ops submission grouped flds (vis, False)))),
            Suc (snd (sweepLoop ops submission grouped flds
                  (fst (sweep ops submission grouped flds (vis, False))))))
      else (fst (sweep ops submission grouped flds (vis, False)), 1))"
  by (subst sweepLoop.simps) (simp add: Let_def)

lemma sweep_strict:
  "snd (sweep ops submission grouped flds (vis, False))
     \<Longrightarrow> vis \<subset> fst (sweep ops submission grouped flds (vis, False))"
  using sweep_flag [of ops submission grouped flds "(vis, False)"]
    sweep_grows [of "(vis, False)" ops submission grouped flds]
  by auto

lemma sweep_same:
  "\<not> snd (sweep ops submission grouped flds (vis, False))
     \<Longrightarrow> fst (sweep ops submission grouped flds (vis, False)) = vis"
  using sweep_flag [of ops submission grouped flds "(vis, False)"] by simp

lemma sweepLoop_bounded:
  "fst (sweepLoop ops submission grouped flds vis) \<subseteq> vis \<union> field_id ` set flds"
proof (induction ops submission grouped flds vis rule: sweepLoop.induct)
  case (1 ops submission grouped flds vis)
  let ?st = "sweep ops submission grouped flds (vis, False)"
  have b: "fst ?st \<subseteq> vis \<union> field_id ` set flds"
    using sweep_bounded [of ops submission grouped flds "(vis, False)"] by simp
  show ?case
  proof (cases "snd ?st")
    case True
    with 1 [OF refl True] have "fst (sweepLoop ops submission grouped flds (fst ?st))
        \<subseteq> fst ?st \<union> field_id ` set flds"
      by simp
    with b True show ?thesis
      by (subst sweepLoop_unfold) auto
  next
    case False
    with b show ?thesis by (subst sweepLoop_unfold) simp
  qed
qed

lemma sweepLoop_count:
  "snd (sweepLoop ops submission grouped flds vis) \<le> card (field_id ` set flds - vis) + 1"
proof (induction ops submission grouped flds vis rule: sweepLoop.induct)
  case (1 ops submission grouped flds vis)
  let ?st = "sweep ops submission grouped flds (vis, False)"
  show ?case
  proof (cases "snd ?st")
    case True
    from sweep_strict [OF True] obtain x where x: "x \<in> fst ?st" "x \<notin> vis" and sub: "vis \<subseteq> fst ?st"
      by auto
    have "x \<in> field_id ` set flds"
      using x sweep_bounded [of ops submission grouped flds "(vis, False)"] by auto
    with x sub have "field_id ` set flds - fst ?st \<subset> field_id ` set flds - vis"
      by auto
    then have "card (field_id ` set flds - fst ?st) < card (field_id ` set flds - vis)"
      by (intro psubset_card_mono) auto
    moreover from 1 [OF refl True]
    have "snd (sweepLoop ops submission grouped flds (fst ?st))
        \<le> card (field_id ` set flds - fst ?st) + 1" .
    ultimately show ?thesis
      using True by (subst sweepLoop_unfold) simp
  next
    case False
    then show ?thesis by (subst sweepLoop_unfold) simp
  qed
qed

lemma sweepLoop_closed:
  "fld \<in> set flds \<Longrightarrow>
     field_id fld \<in> fst (sweepLoop ops submission grouped flds vis)
     \<or> \<not> showable ops submission grouped (fst (sweepLoop ops submission grouped flds vis)) fld"
proof (induction ops submission grouped flds vis rule: sweepLoop.induct)
  case (1 ops submission grouped flds vis)
  let ?st = "sweep ops submission grouped flds (vis, False)"
  show ?case
  proof (cases "snd ?st")
    case True
    with 1 show ?thesis
      by (subst (1 2) sweepLoop_unfold) simp
  next
    case False
    have same: "fst ?st = fst (vis, False)"
      using sweep_same [OF False] by simp
    from sweep_closed [OF same "1.prems"] False same show ?thesis
      by (subst (1 2) sweepLoop_unfold) simp
  qed
qed

lemma sweep_below:
  assumes pre: "\<And>fld. fld \<in> set flds \<Longrightarrow> showable ops submission grouped L fld
              \<Longrightarrow> field_id fld \<in> L"
  shows "fst st \<subseteq> L \<Longrightarrow> fst (sweep ops submission grouped flds' st) \<subseteq> L
     \<or> \<not> set flds' \<subseteq> set flds"
proof (induction flds' arbitrary: st)
  case Nil
  then show ?case by simp
next
  case (Cons a rest)
  show ?case
  proof (cases "set (a # rest) \<subseteq> set flds")
    case False
    then show ?thesis by simp
  next
    case sub: True
    show ?thesis
    proof (cases "field_id a \<notin> fst st \<and> showable ops submission grouped (fst st) a")
      case True
      then have "showable ops submission grouped L a"
        using Cons.prems by (auto intro: showable_mono)
      with pre [of a] sub have "field_id a \<in> L" by simp
      with Cons.prems have "fst (insert (field_id a) (fst st), True) \<subseteq> L" by simp
      from Cons.IH [OF this] sub True show ?thesis
        by (simp only: sweep_Cons) simp
    next
      case False
      with Cons.IH [OF Cons.prems] sub show ?thesis
        by (simp only: sweep_Cons) simp
    qed
  qed
qed

lemma sweepLoop_below:
  assumes pre: "\<And>fld. fld \<in> set flds \<Longrightarrow> showable ops submission grouped L fld
              \<Longrightarrow> field_id fld \<in> L"
  shows "vis \<subseteq> L \<Longrightarrow> fst (sweepLoop ops submission grouped flds vis) \<subseteq> L"
  using pre
proof (induction ops submission grouped flds vis rule: sweepLoop.induct)
  case (1 ops submission grouped flds vis)
  let ?st = "sweep ops submission grouped flds (vis, False)"
  have below: "fst ?st \<subseteq> L"
    using sweep_below [of flds ops submission grouped L "(vis, False)" flds] "1.prems"
    by simp
  show ?case
  proof (cases "snd ?st")
    case True
    from "1.IH" [OF refl True below] "1.prems"(2) True show ?thesis
      by (subst sweepLoop_unfold) simp
  next
    case False
    with below show ?thesis by (subst sweepLoop_unfold) simp
  qed
qed

lemma getVisibleFieldIds_subset:
  "getVisibleFieldIds ops submission form \<subseteq> formFieldIdSet form"
  using sweepLoop_bounded [of ops submission "fst (groupLogicUnitsByField form)" "formFields form" "{}"]
  by (simp add: getVisibleFieldIds_def formFieldIdSet_def)

lemma getVisibleFieldIds_prefixed:
  "visibilityOperator ops submission form (getVisibleFieldIds ops submission form)
     \<subseteq> getVisibleFieldIds ops submission form"
proof
  fix x
  assume "x \<in> visibilityOperator ops submission form (getVisibleFieldIds ops submission form)"
  then obtain fld where fld: "fld \<in> set (formFields form)" "x = field_id fld"
    "showable ops submission (fst (groupLogicUnitsByField form))
       (getVisibleFieldIds ops submission form) fld"
    unfolding visibilityOperator_iff by blast
  with sweepLoop_closed [OF fld(1), of ops submission "fst (groupLogicUnitsByField form)" "{}"]
  show "x \<in> getVisibleFieldIds ops submission form"
    by (simp add: getVisibleFieldIds_def)
qed

lemma getVisibleFieldIds_below_closed:
  assumes "visibilityOperator ops submission form V \<subseteq> V"
  shows "getVisibleFieldIds ops submission form \<subseteq> V"
proof -
  have "field_id fld \<in> V"
    if "fld \<in> set (formFields form)"
      "showable ops submission (fst (groupLogicUnitsByField form)) V fld" for fld
    using that assms visibilityOperator_iff [of "field_id fld" ops submission form V] by blast
  then have "fst (sweepLoop ops submission (fst (groupLogicUnitsByField form)) (formFields form) {})
      \<subseteq> V"
    by (intro sweepLoop_below) auto
  then show ?thesis by (simp add: getVisibleFieldIds_def)
qed

text \<open>
  Claim C2: the set \<^verbatim>\<open>getVisibleFieldIds\<close> returns is the least fixed point of the rule
  ``a field of the form with no entry in the index is visible, and a field with logic
  groups is visible when one of its AND-groups has every condition's subject in the
  visible set and fulfilled by the subject's answer'': it is a fixed point of the rule,
  and it lies inside every set the rule maps into itself.
\<close>

theorem getVisibleFieldIds_least_fixed_point:
  "getVisibleFieldIds ops submission form = lfp (visibilityOperator ops submission form)
   \<and> visibilityOperator ops submission form (getVisibleFieldIds ops submission form)
       = getVisibleFieldIds ops submission form
   \<and> (\<forall>V. visibilityOperator ops submission form V \<subseteq> V
         \<longrightarrow> getVisibleFieldIds ops submission form \<subseteq> V)"
proof -
  let ?F = "visibilityOperator ops submission form"
  let ?R = "getVisibleFieldIds ops submission form"
  have mono: "mono ?F" by (rule visibilityOperator_mono)
  have "lfp ?F \<subseteq> ?R"
    by (rule lfp_lowerbound) (rule getVisibleFieldIds_prefixed)
  moreover have "?R \<subseteq> lfp ?F"
    by (rule getVisibleFieldIds_below_closed) (simp add: lfp_fixpoint [OF mono])
  ultimately have eq: "?R = lfp ?F" by auto
  moreover from eq have "?F ?R = ?R" using lfp_fixpoint [OF mono] by simp
  moreover have "\<forall>V. ?F V \<subseteq> V \<longrightarrow> ?R \<subseteq> V"
    by (intro allI impI) (rule getVisibleFieldIds_below_closed)
  ultimately show ?thesis by (intro conjI)
qed

theorem getVisibleFieldIds_least_fixed_point_witness:
  "visibilityOperator integerNumbers exampleSubmission exampleForm {''e1'', ''d1'', ''n1''}
     \<subseteq> {''e1'', ''d1'', ''n1''}
   \<and> getVisibleFieldIds integerNumbers exampleSubmission exampleForm \<subseteq> {''e1'', ''d1'', ''n1''}"
proof -
  have closed: "visibilityOperator integerNumbers exampleSubmission exampleForm {''e1'', ''d1'', ''n1''}
     \<subseteq> {''e1'', ''d1'', ''n1''}"
    by code_simp
  with getVisibleFieldIds_least_fixed_point [of integerNumbers exampleSubmission exampleForm]
  show ?thesis by blast
qed

text \<open>
  Claim C3: the loop of the resolver terminates (\<open>sweepLoop\<close> is a total function, by the
  termination proof of its definition) after at most \<^verbatim>\<open>|fields| + 1\<close> sweeps, because a
  sweep never leaves the field ids of the form and strictly enlarges the visible set
  whenever it sets the flag \<^verbatim>\<open>changesMade\<close>.
\<close>

theorem sweepLoop_sweeps_bounded:
  "snd (sweepLoop ops submission (fst (groupLogicUnitsByField form)) (formFields form) {})
     \<le> length (formFields form) + 1
   \<and> (\<forall>visible. visible \<subseteq> formFieldIdSet form \<longrightarrow>
         fst (sweep ops submission (fst (groupLogicUnitsByField form)) (formFields form)
                (visible, False)) \<subseteq> formFieldIdSet form)
   \<and> (\<forall>visible. snd (sweep ops submission (fst (groupLogicUnitsByField form)) (formFields form)
                (visible, False)) \<longrightarrow>
         visible \<subset> fst (sweep ops submission (fst (groupLogicUnitsByField form))
                (formFields form) (visible, False)))"
proof -
  let ?g = "fst (groupLogicUnitsByField form)"
  have "snd (sweepLoop ops submission ?g (formFields form) {})
      \<le> card (field_id ` set (formFields form) - {}) + 1"
    by (rule sweepLoop_count)
  also have "card (field_id ` set (formFields form) - {}) \<le> length (formFields form)"
    using card_image_le [of "set (formFields form)" field_id] card_length [of "formFields form"]
    by simp
  finally have count: "snd (sweepLoop ops submission ?g (formFields form) {})
      \<le> length (formFields form) + 1" by simp
  have bound: "fst (sweep ops submission ?g (formFields form) (visible, False))
      \<subseteq> formFieldIdSet form" if "visible \<subseteq> formFieldIdSet form" for visible
    using that sweep_bounded [of ops submission ?g "formFields form" "(visible, False)"]
    by (auto simp: formFieldIdSet_def)
  have strict: "visible \<subset> fst (sweep ops submission ?g (formFields form) (visible, False))"
    if "snd (sweep ops submission ?g (formFields form) (visible, False))" for visible
    using that by (rule sweep_strict)
  show ?thesis
    using count bound strict by (intro conjI allI impI)
qed

theorem sweepLoop_sweeps_bounded_witness:
  "snd (sweep integerNumbers exampleSubmission (fst (groupLogicUnitsByField exampleForm))
          (formFields exampleForm) ({}, False))
   \<and> {} \<subset> fst (sweep integerNumbers exampleSubmission (fst (groupLogicUnitsByField exampleForm))
          (formFields exampleForm) ({}, False))
   \<and> snd (sweepLoop integerNumbers exampleSubmission (fst (groupLogicUnitsByField exampleForm))
          (formFields exampleForm) {}) \<le> 4"
proof -
  have changed: "snd (sweep integerNumbers exampleSubmission (fst (groupLogicUnitsByField exampleForm))
          (formFields exampleForm) ({}, False))"
    by code_simp
  have len: "length (formFields exampleForm) + 1 = 4"
    by (simp add: exampleForm_def exampleFields_def formFields_def)
  from sweepLoop_sweeps_bounded [of integerNumbers exampleSubmission exampleForm] changed len
  show ?thesis
    by (simp del: sweep.simps)
qed

text \<open>
  Claim C10: every element of the set \<^verbatim>\<open>getVisibleFieldIds\<close> returns is the id of a field
  of the form, whatever entries the submission has; and a logic unit with a condition
  whose subject has no entry in the submission is not satisfied, for any visible set.
\<close>

theorem getVisibleFieldIds_within_form:
  "getVisibleFieldIds ops submission form \<subseteq> formFieldIdSet form
   \<and> (\<forall>logicUnit visible condition.
         condition \<in> set logicUnit \<and> field condition \<notin> field_id ` set submission
           \<longrightarrow> \<not> isLogicUnitSatisfied ops submission logicUnit visible)"
proof -
  have "\<not> isLogicUnitSatisfied ops submission logicUnit visible"
    if "condition \<in> set logicUnit" "field condition \<notin> field_id ` set submission"
    for logicUnit visible condition
  proof -
    have "findConditionField submission (field condition) = None"
      using that(2) by (force simp: findConditionField_def find_None_iff image_iff)
    with that(1) have "\<exists>c \<in> set logicUnit.
        \<not> (case findConditionField submission (field c) of
              None \<Rightarrow> False
            | Some conditionField \<Rightarrow>
                field_id conditionField \<in> visible
                \<and> isConditionFulfilled ops (Some conditionField) (Some c))"
      by (intro bexI [of _ condition]) simp_all
    then show ?thesis
      by (simp add: isLogicUnitSatisfied_def list_all_iff)
  qed
  then have "\<forall>logicUnit visible condition.
         condition \<in> set logicUnit \<and> field condition \<notin> field_id ` set submission
           \<longrightarrow> \<not> isLogicUnitSatisfied ops submission logicUnit visible"
    by (intro allI impI) (elim conjE)
  with getVisibleFieldIds_subset [of ops submission form] show ?thesis by (intro conjI)
qed

theorem getVisibleFieldIds_within_form_witness:
  "getVisibleFieldIds integerNumbers
       (exampleSubmission @ [response ''zz'' Number (Str ''1'')]) exampleForm
     \<subseteq> {''e1'', ''d1'', ''n1''}
   \<and> field equalOptionA \<notin> field_id ` set ([] :: (int option) LogicFieldSchemaOrResponse list)
   \<and> \<not> isLogicUnitSatisfied integerNumbers [] [equalOptionA] {''d1''}"
proof -
  have ids: "formFieldIdSet exampleForm = {''e1'', ''d1'', ''n1''}"
    by (simp add: exampleForm_def exampleFields_def formFields_def formFieldIdSet_def)
  have absent: "field equalOptionA \<notin> field_id ` set ([] :: (int option) LogicFieldSchemaOrResponse list)"
    by simp
  from getVisibleFieldIds_within_form
      [of integerNumbers "exampleSubmission @ [response ''zz'' Number (Str ''1'')]" exampleForm]
    getVisibleFieldIds_within_form [of integerNumbers "[]" exampleForm] ids absent
  show ?thesis by auto
qed


section \<open>Submission gate: theorems\<close>

lemma find_filter: "List.find P (filter Q xs) = List.find (\<lambda>x. Q x \<and> P x) xs"
  by (induction xs) simp_all

lemma gate_find:
  "getLogicUnitPreventingSubmit ops submission form visibleFieldIds
     = List.find
         (blocksSubmit ops submission form
            (case visibleFieldIds of Some ids \<Rightarrow> ids
             | None \<Rightarrow> getVisibleFieldIds ops submission form))
         (formLogicUnits form)"
proof -
  have "(\<lambda>unit. (isPreventSubmitLogic unit
            \<and> allConditionsExist (conditions unit) (formFieldIdSet form))
          \<and> isLogicUnitSatisfied ops submission (conditions unit) V)
      = blocksSubmit ops submission form V" for V
    by (intro ext) (simp add: blocksSubmit_def isPreventSubmitLogic_def allConditionsExist_def
        list_all_iff isLogicUnitSatisfied_groupSatisfied)
  then show ?thesis
    by (simp add: getLogicUnitPreventingSubmit_def getPreventSubmitConditions_def Let_def
        find_filter)
qed

text \<open>
  Claim C6: the gate considers only the prevent-submit units all of whose condition
  subjects are field ids of the form; it returns the first unit, in the order of the
  form, whose conditions are all fulfilled with visible subjects, and never a later
  one; it returns none exactly when no unit blocks; and without a visible set from the
  caller it uses the one \<^verbatim>\<open>getVisibleFieldIds\<close> computes.
\<close>

theorem getLogicUnitPreventingSubmit_first_blocking:
  fixes form :: "'n IFormDocument"
  shows "(getLogicUnitPreventingSubmit ops submission form (Some visible) = Some unit
          \<longleftrightarrow> (\<exists>i < length (formLogicUnits form). formLogicUnits form ! i = unit
                 \<and> blocksSubmit ops submission form visible unit
                 \<and> (\<forall>j < i. \<not> blocksSubmit ops submission form visible (formLogicUnits form ! j))))
     \<and> (getLogicUnitPreventingSubmit ops submission form (Some visible) = None
          \<longleftrightarrow> (\<forall>unit \<in> set (formLogicUnits form). \<not> blocksSubmit ops submission form visible unit))
     \<and> getLogicUnitPreventingSubmit ops submission form None
          = getLogicUnitPreventingSubmit ops submission form
              (Some (getVisibleFieldIds ops submission form))"
proof -
  have "getLogicUnitPreventingSubmit ops submission form (Some visible)
      = List.find (blocksSubmit ops submission form visible) (formLogicUnits form)"
    by (simp add: gate_find)
  moreover have "getLogicUnitPreventingSubmit ops submission form None
          = getLogicUnitPreventingSubmit ops submission form
              (Some (getVisibleFieldIds ops submission form))"
    by (simp add: gate_find)
  ultimately show ?thesis
    by (auto simp: find_Some_iff find_None_iff)
qed

theorem getLogicUnitPreventingSubmit_first_blocking_witness:
  "getLogicUnitPreventingSubmit integerNumbers exampleSubmission exampleForm
       (Some {''e1'', ''d1'', ''n1''})
     = Some (IPreventSubmitLogicSchema [gteHundred] None)"
proof -
  have blocks: "blocksSubmit integerNumbers exampleSubmission exampleForm {''e1'', ''d1'', ''n1''}
      (IPreventSubmitLogicSchema [gteHundred] None)"
    by code_simp
  have first: "\<not> blocksSubmit integerNumbers exampleSubmission exampleForm {''e1'', ''d1'', ''n1''}
      (IShowFieldsLogicSchema [equalOptionA] [''e1''])"
    by (simp add: blocksSubmit_def)
  have units: "formLogicUnits exampleForm
      = [IShowFieldsLogicSchema [equalOptionA] [''e1''], IPreventSubmitLogicSchema [gteHundred] None]"
    by (simp add: exampleForm_def formLogicUnits_def)
  have "\<exists>i < length (formLogicUnits exampleForm).
      formLogicUnits exampleForm ! i = IPreventSubmitLogicSchema [gteHundred] None
      \<and> blocksSubmit integerNumbers exampleSubmission exampleForm {''e1'', ''d1'', ''n1''}
           (IPreventSubmitLogicSchema [gteHundred] None)
      \<and> (\<forall>j < i. \<not> blocksSubmit integerNumbers exampleSubmission exampleForm {''e1'', ''d1'', ''n1''}
           (formLogicUnits exampleForm ! j))"
    using blocks first unfolding units by (intro exI [of _ 1]) simp
  with getLogicUnitPreventingSubmit_first_blocking
      [of integerNumbers exampleSubmission exampleForm "{''e1'', ''d1'', ''n1''}"
        "IPreventSubmitLogicSchema [gteHundred] None"]
  show ?thesis by simp
qed

end
